theory Spec2Isabelle
  imports Main "HOL-Library.Word" "HOL-Library.Sublist"
begin

section \<open>JavaScript strings\<close>

text \<open>
  A JavaScript string is a sequence of UTF-16 code units. \<open>js\<close> turns an ASCII literal
  of the source into that representation.
\<close>

type_synonym jschar = "16 word"
type_synonym jsstring = "jschar list"

definition js :: "string \<Rightarrow> jsstring" where
  "js s = map (\<lambda>c. of_nat (of_char c)) s"

definition LF :: jschar where "LF = 0x0A"
definition CR :: jschar where "CR = 0x0D"
definition SP :: jschar where "SP = 0x20"

text \<open>
  The class \<open>\s\<close> of a regular expression without the unicode flag, which is also the
  set \<open>String.prototype.trim\<close> strips: WhiteSpace and LineTerminator of ECMAScript
  (TAB, LF, VT, FF, CR, SP, NBSP, U+1680, U+2000..U+200A, U+2028, U+2029, U+202F,
  U+205F, U+3000, U+FEFF).
\<close>

definition is_ws :: "jschar \<Rightarrow> bool" where
  "is_ws c \<longleftrightarrow>
     c = 0x09 \<or> c = 0x0A \<or> c = 0x0B \<or> c = 0x0C \<or> c = 0x0D \<or> c = 0x20 \<or> c = 0xA0 \<or>
     c = 0x1680 \<or> (0x2000 \<le> c \<and> c \<le> 0x200A) \<or> c = 0x2028 \<or> c = 0x2029 \<or>
     c = 0x202F \<or> c = 0x205F \<or> c = 0x3000 \<or> c = 0xFEFF"

text \<open>\<open>line.trim()\<close>: strips the whitespace at both ends.\<close>

definition trim :: "jsstring \<Rightarrow> jsstring" where
  "trim s = rev (dropWhile is_ws (rev (dropWhile is_ws s)))"

text \<open>
  \<open>s.split(/\s+/)\<close>, as ECMAScript's split runs it: from the start \<open>p\<close> of the current
  piece the position \<open>q\<close> moves right one code unit at a time; where the expression
  matches at \<open>q\<close> (the code unit there is whitespace; the greedy \<open>+\<close> takes the whole
  run) the piece \<open>S[p..q)\<close> is emitted and the next piece starts after the run. The
  piece left at the end is emitted too, so the empty string gives one empty piece and
  whitespace at either end gives an empty piece there. \<open>cur\<close> is the piece read so far.
\<close>

function split_ws_from :: "jsstring \<Rightarrow> jsstring \<Rightarrow> jsstring list" where
  "split_ws_from cur [] = [cur]"
| "split_ws_from cur (c # cs) =
     (if is_ws c then cur # split_ws_from [] (dropWhile is_ws cs)
      else split_ws_from (cur @ [c]) cs)"
  by pat_completeness auto
termination
  by (relation "measure (\<lambda>(cur, s). length s)")
     (auto intro: le_imp_less_Suc length_dropWhile_le)

definition split_ws :: "jsstring \<Rightarrow> jsstring list" where
  "split_ws s = split_ws_from [] s"

text \<open>
  \<open>text.split(/\r?\n/)\<close>: at \<open>q\<close> the expression matches CR LF (two code units) or LF
  (one). At a CR that no LF follows it does not match: the optional CR backtracks to
  empty and LF is then compared with the CR.
\<close>

fun split_lines_from :: "jsstring \<Rightarrow> jsstring \<Rightarrow> jsstring list" where
  "split_lines_from cur [] = [cur]"
| "split_lines_from cur [c] = (if c = LF then [cur, []] else [cur @ [c]])"
| "split_lines_from cur (c # d # cs) =
     (if c = CR \<and> d = LF then cur # split_lines_from [] cs
      else if c = LF then cur # split_lines_from [] (d # cs)
      else split_lines_from (cur @ [c]) (d # cs))"

definition split_lines :: "jsstring \<Rightarrow> jsstring list" where
  "split_lines s = split_lines_from [] s"

text \<open>\<open>xs.slice(-n)\<close>: the last \<open>n\<close> elements, all of them when there are fewer.\<close>

definition slice_last :: "nat \<Rightarrow> 'a list \<Rightarrow> 'a list" where
  "slice_last n xs = drop (length xs - n) xs"

text \<open>\<open>parts.join(" ")\<close>.\<close>

fun join_sp :: "jsstring list \<Rightarrow> jsstring" where
  "join_sp [] = []"
| "join_sp [x] = x"
| "join_sp (x # y # ys) = x @ [SP] @ join_sp (y # ys)"

text \<open>\<open>s.includes(pat)\<close>: \<open>pat\<close> occurs in \<open>s\<close> as a contiguous run.\<close>

fun str_includes :: "jsstring \<Rightarrow> jsstring \<Rightarrow> bool" where
  "str_includes [] pat = (pat = [])"
| "str_includes (c # cs) pat = (prefix pat (c # cs) \<or> str_includes cs pat)"

section \<open>Console output, exceptions and the bridge state\<close>

text \<open>
  One constructor for each \<open>console.log\<close> and \<open>console.error\<close> call of the source,
  carrying the values the call interpolates.
\<close>

datatype log =
    Usage
  | Log_publish jsstring jsstring
  | Poll_error jsstring
  | Log_mqtt jsstring jsstring
  | Warn_no_frame
  | Log_sent jsstring
  | Warn_no_input
  | Send_error jsstring

text \<open>A thrown \<open>Error\<close> object; the handlers read only its \<open>message\<close>.\<close>

datatype error = Error (message_of: jsstring)

type_synonym elem = nat

datatype key = Backspace | Enter

text \<open>
  The calls the inbound handler makes on the page: \<open>serialInput.click({clickCount: n})\<close>,
  \<open>page.keyboard.press(key)\<close> and \<open>serialInput.type(msg)\<close>.
\<close>

datatype action = Click elem nat | Press key | Type elem jsstring

record frame =
  frame_ref :: nat
  url :: jsstring

text \<open>
  The collaborators the script calls and does not define (the MQTT client, Puppeteer,
  Node's Buffer), as parameters. \<open>'w\<close> is the state of the browser session.
  \<open>publish\<close> tells whether \<open>client.publish(topic, payload)\<close> throws, given the calls
  made before it; \<open>frames\<close> is \<open>page.frames()\<close>; \<open>query_inputs\<close> is
  \<open>targetFrame.$$("textarea, input[type='text']")\<close>, the matching elements in document
  order; \<open>perform\<close> runs one action on the session and tells whether it threw.
\<close>

record 'w env =
  publish :: "(jsstring \<times> jsstring) list \<Rightarrow> jsstring \<Rightarrow> jsstring \<Rightarrow> error option"
  toString :: "8 word list \<Rightarrow> jsstring"
  frames :: "'w \<Rightarrow> error + frame list"
  query_inputs :: "'w \<Rightarrow> frame \<Rightarrow> error + elem list"
  perform :: "'w \<Rightarrow> action \<Rightarrow> error option \<times> 'w"

text \<open>
  The state of the running bridge: the variable \<open>lastData\<close> of the source, and the trace
  of what the script has done so far: the console output, the calls of
  \<open>client.publish\<close> and the actions issued on the page, each in order.
\<close>

record 'w bridge =
  lastData :: jsstring
  console :: "log list"
  published :: "(jsstring \<times> jsstring) list"
  world :: 'w
  actions :: "action list"

section \<open>Startup arguments\<close>

record config =
  URL :: jsstring
  BROKER :: jsstring
  PORT :: jsstring

text \<open>\<open>Exit out n\<close>: the process wrote \<open>out\<close> and left through \<open>process.exit(n)\<close>.\<close>

datatype startup_result = Exit "log list" nat | Started config

text \<open>An element of \<open>process.argv\<close>; \<open>None\<close> is \<open>undefined\<close>, the index being past the end.\<close>

definition arg :: "jsstring list \<Rightarrow> nat \<Rightarrow> jsstring option" where
  "arg argv i = (if i < length argv then Some (argv ! i) else None)"

text \<open>
  \<open>const [,, URL, BROKER = "localhost", PORT = "1883"] = process.argv\<close> and the check
  that follows it. A default of a destructuring pattern applies where the element is
  \<open>undefined\<close>; \<open>!URL\<close> holds for \<open>undefined\<close> and for the empty string.
\<close>

definition startup :: "jsstring list \<Rightarrow> startup_result" where
  "startup argv =
     (let url = arg argv 2;
          broker = (case arg argv 3 of None \<Rightarrow> js ''localhost'' | Some b \<Rightarrow> b);
          port = (case arg argv 4 of None \<Rightarrow> js ''1883'' | Some p \<Rightarrow> p)
      in case url of
           None \<Rightarrow> Exit [Usage] 1
         | Some u \<Rightarrow>
             if u = [] then Exit [Usage] 1
             else Started \<lparr>URL = u, BROKER = broker, PORT = port\<rparr>)"

section \<open>Serial output polling\<close>

text \<open>
  The \<open>for (const line of lines)\<close> loop of the poll callback. The result says whether a
  call of \<open>client.publish\<close> threw, which ends the loop; the state holds what was done
  until then.
\<close>

fun publish_lines :: "'w env \<Rightarrow> jsstring list \<Rightarrow> 'w bridge \<Rightarrow> error option \<times> 'w bridge" where
  "publish_lines env [] st = (None, st)"
| "publish_lines env (line # rest) st =
     (if trim line = [] then publish_lines env rest st
      else
        let parts = split_ws (trim line) in
        if length parts < 2 then publish_lines env rest st
        else
          let topic = parts ! 0;
              payload = join_sp (drop 1 parts);
              st1 = st\<lparr>console := console st @ [Log_publish topic payload]\<rparr>;
              st2 = st1\<lparr>published := published st1 @ [(topic, payload)]\<rparr>
          in case publish env (published st1) topic payload of
               Some err \<Rightarrow> (Some err, st2)
             | None \<Rightarrow> publish_lines env rest st2)"

text \<open>
  One run of the \<open>setInterval\<close> callback. \<open>ev\<close> is what \<open>page.evaluate\<close> gave on this
  tick: the text of the page (a string, \<open>""\<close> when there is no body), or the exception it
  threw. \<open>!text\<close> holds for the empty string only.
\<close>

definition poll_tick :: "'w env \<Rightarrow> error + jsstring \<Rightarrow> 'w bridge \<Rightarrow> 'w bridge" where
  "poll_tick env ev st =
     (case ev of
        Inl err \<Rightarrow> st\<lparr>console := console st @ [Poll_error (message_of err)]\<rparr>
      | Inr text \<Rightarrow>
          if text = [] \<or> text = lastData st then st
          else
            let st1 = st\<lparr>lastData := text\<rparr>;
                lines = slice_last 10 (split_lines text)
            in case publish_lines env lines st1 of
                 (None, st2) \<Rightarrow> st2
               | (Some err, st2) \<Rightarrow> st2\<lparr>console := console st2 @ [Poll_error (message_of err)]\<rparr>)"

section \<open>Forwarding MQTT messages to the Serial Monitor\<close>

text \<open>
  The four awaited calls on the chosen element, in the order of the source.
\<close>

definition injection :: "elem \<Rightarrow> jsstring \<Rightarrow> action list" where
  "injection serialInput msg =
     [Click serialInput 3, Press Backspace, Type serialInput msg, Press Enter]"

text \<open>
  The handler is an \<open>async\<close> function: it runs until it awaits a call, and goes on when
  that call has settled; in between, the timer callback and the handlers of other
  events run. What a suspended handler waits for, with the result the call will give:
  the frames of \<open>page.frames()\<close>, the elements of \<open>$$\<close> or its exception, or the
  outcome of an action together with the actions still to come. A page call is taken
  as one step, from the call to its result.
\<close>

datatype awaited =
    Frames_result "frame list"
  | Inputs_result "error + elem list"
  | Call_result "error option" "action list"

text \<open>A suspended handler: its \<open>msg\<close> and what it awaits.\<close>

type_synonym task = "jsstring \<times> awaited"

text \<open>The \<open>catch\<close> block of the handler.\<close>

definition caught :: "error \<Rightarrow> 'w bridge \<Rightarrow> 'w bridge" where
  "caught err st = st\<lparr>console := console st @ [Send_error (message_of err)]\<rparr>"

text \<open>
  The handler at the next of its awaited actions: it issues the call and suspends;
  after the last one it logs that the text was sent and ends.
\<close>

fun issue :: "'w env \<Rightarrow> jsstring \<Rightarrow> action list \<Rightarrow> 'w bridge \<Rightarrow> task option \<times> 'w bridge" where
  "issue env msg [] st = (None, st\<lparr>console := console st @ [Log_sent msg]\<rparr>)"
| "issue env msg (a # rest) st =
     (case perform env (world st) a of
        (r, w) \<Rightarrow> (Some (msg, Call_result r rest), st\<lparr>world := w, actions := actions st @ [a]\<rparr>))"

text \<open>
  The call of the handler of \<open>client.on("message", ...)\<close>, up to its first \<open>await\<close>:
  \<open>message.toString()\<close>, the console line, and \<open>page.frames()\<close> inside the \<open>try\<close>.
  \<open>None\<close>: the handler has ended.
\<close>

definition on_message :: "'w env \<Rightarrow> jsstring \<Rightarrow> 8 word list \<Rightarrow> 'w bridge \<Rightarrow> task option \<times> 'w bridge" where
  "on_message env topic message st =
     (let msg = toString env message;
          st0 = st\<lparr>console := console st @ [Log_mqtt topic msg]\<rparr>
      in case frames env (world st0) of
           Inl err \<Rightarrow> (None, caught err st0)
         | Inr fs \<Rightarrow> (Some (msg, Frames_result fs), st0))"

text \<open>
  The handler going on after an \<open>await\<close>, in the state it finds then, up to its next
  \<open>await\<close> or its end.
\<close>

fun resume :: "'w env \<Rightarrow> task \<Rightarrow> 'w bridge \<Rightarrow> task option \<times> 'w bridge" where
  "resume env (msg, Frames_result fs) st =
     (case find (\<lambda>f. str_includes (url f) (js ''/editel'')) fs of
        None \<Rightarrow> (None, st\<lparr>console := console st @ [Warn_no_frame]\<rparr>)
      | Some targetFrame \<Rightarrow>
          (Some (msg, Inputs_result (query_inputs env (world st) targetFrame)), st))"
| "resume env (msg, Inputs_result (Inl err)) st = (None, caught err st)"
| "resume env (msg, Inputs_result (Inr textInputs)) st =
     (if length textInputs > 0 then
        issue env msg (injection (textInputs ! (length textInputs - 1)) msg) st
      else (None, st\<lparr>console := console st @ [Warn_no_input]\<rparr>))"
| "resume env (msg, Call_result (Some err) rest) st = (None, caught err st)"
| "resume env (msg, Call_result None rest) st = issue env msg rest st"

text \<open>The number of times a suspended handler can still go on.\<close>

fun steps_left :: "task option \<Rightarrow> nat" where
  "steps_left None = 0"
| "steps_left (Some (msg, Frames_result fs)) = 7"
| "steps_left (Some (msg, Inputs_result r)) = 6"
| "steps_left (Some (msg, Call_result r rest)) = Suc (length rest)"

text \<open>A handler run to its end with nothing else running in between.\<close>

function run_task :: "'w env \<Rightarrow> task option \<Rightarrow> 'w bridge \<Rightarrow> 'w bridge" where
  "run_task env None st = st"
| "run_task env (Some t) st = run_task env (fst (resume env t st)) (snd (resume env t st))"
  by pat_completeness auto
termination
proof (relation "measure (\<lambda>(env, t, st). steps_left t)")
  show "wf (measure (\<lambda>(env :: 'w env, t, st :: 'w bridge). steps_left t))" by simp
next
  fix env :: "'w env" and t :: task and st :: "'w bridge"
  obtain msg a where t: "t = (msg, a)" by (cases t)
  have "steps_left (fst (resume env t st)) < steps_left (Some t)"
  proof (cases a)
    case (Frames_result fs)
    then show ?thesis using t by (simp split: option.splits)
  next
    case (Inputs_result r)
    then show ?thesis using t by (cases r) (simp_all add: injection_def split: prod.splits)
  next
    case (Call_result r rest)
    then show ?thesis using t
      by (cases r; cases rest) (simp_all split: prod.splits)
  qed
  then show "((env, fst (resume env t st), snd (resume env t st)), env, Some t, st)
      \<in> measure (\<lambda>(env, t, st). steps_left t)"
    by (simp add: split_beta)
qed

text \<open>One inbound event handled alone, from the call of the handler to its end.\<close>

definition on_message_alone :: "'w env \<Rightarrow> jsstring \<Rightarrow> 8 word list \<Rightarrow> 'w bridge \<Rightarrow> 'w bridge" where
  "on_message_alone env topic message st =
     run_task env (fst (on_message env topic message st)) (snd (on_message env topic message st))"

text \<open>
  Several handlers in flight. Nothing in the script orders them: whenever the event
  loop is free, any suspended handler whose call has settled goes on. A schedule names,
  step by step, the handler that goes on; a handler that has ended stays ended.
\<close>

fun run_schedule :: "'w env \<Rightarrow> nat list \<Rightarrow> task option list \<Rightarrow> 'w bridge \<Rightarrow> task option list \<times> 'w bridge" where
  "run_schedule env [] ts st = (ts, st)"
| "run_schedule env (i # rest) ts st =
     (if i < length ts then
        (case ts ! i of
           None \<Rightarrow> run_schedule env rest ts st
         | Some t \<Rightarrow>
             run_schedule env rest (ts[i := fst (resume env t st)]) (snd (resume env t st)))
      else run_schedule env rest ts st)"

section \<open>The parser as the specification words it\<close>

text \<open>
  The whitespace-separated tokens of a string: its maximal runs of code units that are
  not whitespace, from left to right.
\<close>

function spec_tokens :: "jsstring \<Rightarrow> jsstring list" where
  "spec_tokens s =
     (let r = dropWhile is_ws s in
      if r = [] then []
      else takeWhile (\<lambda>c. \<not> is_ws c) r # spec_tokens (dropWhile (\<lambda>c. \<not> is_ws c) r))"
  by pat_completeness auto
termination
proof (relation "measure length")
  show "wf (measure length)" by simp
next
  fix s r :: jsstring
  assume r: "r = dropWhile is_ws s" and ne: "r \<noteq> []"
  from ne obtain c cs where rc: "r = c # cs" by (cases r) auto
  have "\<not> is_ws (hd r)" unfolding r using ne r hd_dropWhile by blast
  then have "\<not> is_ws c" using rc by simp
  then have "dropWhile (\<lambda>c. \<not> is_ws c) r = dropWhile (\<lambda>c. \<not> is_ws c) cs"
    using rc by simp
  moreover have "length (dropWhile (\<lambda>c. \<not> is_ws c) cs) \<le> length cs"
    by (rule length_dropWhile_le)
  moreover have "length r \<le> length s" unfolding r by (rule length_dropWhile_le)
  ultimately show "(dropWhile (\<lambda>c. \<not> is_ws c) r, s) \<in> measure length"
    using rc by simp
qed

text \<open>
  The record of one line: none when the trimmed line is empty or has fewer than two
  tokens, else the first token as topic and the other tokens, joined with single
  spaces, as payload.
\<close>

definition spec_record :: "jsstring \<Rightarrow> (jsstring \<times> jsstring) option" where
  "spec_record line =
     (let ts = spec_tokens (trim line) in
      if trim line = [] \<or> length ts < 2 then None
      else Some (hd ts, join_sp (tl ts)))"

text \<open>
  The records of a snapshot, \<open>parse(snapshot)\<close> of the specification: the records of
  its last 10 lines, in the order of the lines.
\<close>

definition spec_parse :: "jsstring \<Rightarrow> (jsstring \<times> jsstring) list" where
  "spec_parse snapshot = List.map_filter spec_record (slice_last 10 (split_lines snapshot))"

text \<open>A line without the one CR that may end it: what is left of a line closed by CR LF.\<close>

definition chomp_cr :: "jsstring \<Rightarrow> jsstring" where
  "chomp_cr a = (if a \<noteq> [] \<and> last a = CR then butlast a else a)"

section \<open>Environments and states of the examples\<close>

text \<open>A bus on which no call of \<open>client.publish\<close> throws.\<close>

definition never_throws :: "'w env \<Rightarrow> bool" where
  "never_throws env \<longleftrightarrow> (\<forall>h t p. publish env h t p = None)"

text \<open>The state when the poll timer is set: \<open>let lastData = ""\<close>, nothing done yet.\<close>

definition start :: "'w \<Rightarrow> 'w bridge" where
  "start w = \<lparr>lastData = [], console = [], published = [], world = w, actions = []\<rparr>"

text \<open>A decoding for the examples: one code unit for each byte.\<close>

definition latin1 :: "8 word list \<Rightarrow> jsstring" where
  "latin1 bs = map ucast bs"

text \<open>
  Two environments without a page: on \<open>quiet_env\<close> every call returns, on
  \<open>offline_env\<close> every call of \<open>client.publish\<close> throws.
\<close>

definition quiet_env :: "unit env" where
  "quiet_env = \<lparr>publish = (\<lambda>h t p. None), toString = latin1, frames = (\<lambda>w. Inr []),
     query_inputs = (\<lambda>w f. Inr []), perform = (\<lambda>w a. (None, w))\<rparr>"

definition offline_env :: "unit env" where
  "offline_env = quiet_env\<lparr>publish := (\<lambda>h t p. Some (Error (js ''offline'')))\<rparr>"


text \<open>A snapshot of twelve lines.\<close>

definition twelve_lines :: jsstring where
  "twelve_lines = js ''a 1'' @ [LF] @ js ''b 2'' @ [LF] @ js ''c 3'' @ [LF] @ js ''d 4'' @ [LF] @
     js ''e 5'' @ [LF] @ js ''f 6'' @ [LF] @ js ''g 7'' @ [LF] @ js ''h 8'' @ [LF] @
     js ''i 9'' @ [LF] @ js ''j 10'' @ [LF] @ js ''k 11'' @ [LF] @ js ''l 12''"

text \<open>
  A page for the examples: the text of each text field, the element whose text is all
  selected, the element with the focus, and what Enter has submitted. A triple click
  selects the text of the element, Backspace deletes the selection (or one code unit),
  typing appends to the element's text, Enter submits the text of the focused element.
\<close>

record page =
  field_text :: "elem \<Rightarrow> jsstring"
  selection :: "elem option"
  focus :: "elem option"
  submitted :: "jsstring list"

fun perform_page :: "page \<Rightarrow> action \<Rightarrow> error option \<times> page" where
  "perform_page w (Click e n) =
     (None, w\<lparr>focus := Some e, selection := (if n = 3 then Some e else None)\<rparr>)"
| "perform_page w (Press Backspace) =
     (None,
      case selection w of
        Some e \<Rightarrow> w\<lparr>field_text := (field_text w)(e := []), selection := None\<rparr>
      | None \<Rightarrow>
          (case focus w of
             Some e \<Rightarrow> w\<lparr>field_text := (field_text w)(e := butlast (field_text w e))\<rparr>
           | None \<Rightarrow> w))"
| "perform_page w (Press Enter) =
     (None,
      case focus w of
        Some e \<Rightarrow> w\<lparr>submitted := submitted w @ [field_text w e]\<rparr>
      | None \<Rightarrow> w)"
| "perform_page w (Type e t) =
     (None, w\<lparr>field_text := (field_text w)(e := field_text w e @ t), focus := Some e, selection := None\<rparr>)"

text \<open>A session with two frames, the second the editor, which has two text fields.\<close>

definition editor_frames :: "frame list" where
  "editor_frames =
     [\<lparr>frame_ref = 0, url = js ''https://www.tinkercad.com/things/x''\<rparr>,
      \<lparr>frame_ref = 1, url = js ''https://www.tinkercad.com/things/x/editel?tenant=circuits''\<rparr>]"

definition page_env :: "page env" where
  "page_env = \<lparr>publish = (\<lambda>h t p. None), toString = latin1,
     frames = (\<lambda>w. Inr editor_frames),
     query_inputs = (\<lambda>w f. Inr (if frame_ref f = 1 then [3, 7] else [])),
     perform = perform_page\<rparr>"

text \<open>The same session, where the action \<open>bad\<close> throws and leaves the page as it is.\<close>

definition throwing_env :: "action \<Rightarrow> page env" where
  "throwing_env bad = page_env\<lparr>perform :=
     (\<lambda>w a. if a = bad then (Some (Error (js ''detached'')), w) else perform_page w a)\<rparr>"

definition old_page :: page where
  "old_page = \<lparr>field_text = (\<lambda>e. if e = 7 then js ''old text'' else []), selection = None,
     focus = None, submitted = []\<rparr>"

text \<open>The bytes of an ASCII literal.\<close>

definition bytes :: "string \<Rightarrow> 8 word list" where
  "bytes s = map (\<lambda>c. of_nat (of_char c)) s"

text \<open>
  Sessions that fail: an editor without a text field, a session whose frames cannot be
  listed, and an editor whose elements cannot be queried. \<open>command_topic\<close> is the
  topic the script subscribes to.
\<close>

definition closed_monitor_env :: "page env" where
  "closed_monitor_env = page_env\<lparr>query_inputs := (\<lambda>w f. Inr [])\<rparr>"

definition crashed_env :: "page env" where
  "crashed_env = page_env\<lparr>frames := (\<lambda>w. Inl (Error (js ''Target closed'')))\<rparr>"

definition stale_env :: "page env" where
  "stale_env = page_env\<lparr>query_inputs := (\<lambda>w f. Inl (Error (js ''Execution context was destroyed'')))\<rparr>"

definition command_topic :: jsstring where
  "command_topic = js ''sensor/command''"




section \<open>Strings: trimming and tokens\<close>

declare spec_tokens.simps [simp del]

lemma last_dropWhile_ne: "dropWhile P xs \<noteq> [] \<Longrightarrow> last (dropWhile P xs) = last xs"
  by (induction xs) (auto split: if_splits)

lemma trim_ends:
  assumes "trim s \<noteq> []"
  shows "\<not> is_ws (hd (trim s))" and "\<not> is_ws (last (trim s))"
proof -
  define a where "a = dropWhile is_ws s"
  define b where "b = dropWhile is_ws (rev a)"
  have t: "trim s = rev b" by (simp add: trim_def a_def b_def)
  with assms have bne: "b \<noteq> []" by simp
  then have ane: "a \<noteq> []" by (auto simp: b_def)
  have "\<not> is_ws (hd b)" using bne unfolding b_def by (rule hd_dropWhile)
  then show "\<not> is_ws (last (trim s))" using bne by (simp add: t last_rev)
  have "last b = last (rev a)" using bne unfolding b_def by (rule last_dropWhile_ne)
  also have "\<dots> = hd a" using ane by (simp add: last_rev)
  finally have "last b = hd a" .
  moreover have "\<not> is_ws (hd a)" using ane unfolding a_def by (rule hd_dropWhile)
  ultimately show "\<not> is_ws (hd (trim s))" using bne by (simp add: t hd_rev)
qed

lemma spec_tokens_run:
  assumes "cur \<noteq> []" and "\<forall>c\<in>set cur. \<not> is_ws c"
  shows "spec_tokens (cur @ s) =
         (cur @ takeWhile (\<lambda>c. \<not> is_ws c) s) # spec_tokens (dropWhile (\<lambda>c. \<not> is_ws c) s)"
proof -
  from assms obtain c cs where cur: "cur = c # cs" by (cases cur) auto
  with assms have "\<not> is_ws c" by simp
  then have d: "dropWhile is_ws (cur @ s) = cur @ s" by (simp add: cur)
  have "takeWhile (\<lambda>c. \<not> is_ws c) (cur @ s) = cur @ takeWhile (\<lambda>c. \<not> is_ws c) s"
    using assms(2) by (simp add: takeWhile_append2)
  moreover have "dropWhile (\<lambda>c. \<not> is_ws c) (cur @ s) = dropWhile (\<lambda>c. \<not> is_ws c) s"
    using assms(2) by (simp add: dropWhile_append2)
  ultimately show ?thesis
    using assms(1) by (subst spec_tokens.simps) (simp add: d Let_def)
qed

lemma spec_tokens_skip: "spec_tokens (dropWhile is_ws s) = spec_tokens s"
  by (subst spec_tokens.simps, subst (2) spec_tokens.simps) (simp add: dropWhile_idem)

lemma split_ws_from_tokens:
  "\<forall>c\<in>set cur. \<not> is_ws c \<Longrightarrow> cur @ s \<noteq> [] \<Longrightarrow> \<not> is_ws (hd (cur @ s)) \<Longrightarrow>
   \<not> is_ws (last (cur @ s)) \<Longrightarrow> split_ws_from cur s = spec_tokens (cur @ s)"
proof (induction cur s rule: split_ws_from.induct)
  case (1 cur)
  then show ?case using spec_tokens_run [of cur "[]"]
    by (simp add: spec_tokens.simps [of "[]"])
next
  case (2 cur c cs)
  show ?case
  proof (cases "is_ws c")
    case True
    with 2 have cne: "cur \<noteq> []" by (cases cur) auto
    define r where "r = dropWhile is_ws cs"
    have nws: "\<not> is_ws (last (c # cs))" using 2(6) by simp
    with True have csne: "cs \<noteq> []" by auto
    have rne: "r \<noteq> []"
    proof
      assume "r = []"
      then have "\<forall>x\<in>set cs. is_ws x" by (simp add: r_def dropWhile_eq_Nil_conv)
      then have "is_ws (last cs)" using csne last_in_set by blast
      with nws csne show False by simp
    qed
    have "\<not> is_ws (hd r)" using rne unfolding r_def by (rule hd_dropWhile)
    moreover have "last r = last cs" using rne unfolding r_def by (rule last_dropWhile_ne)
    then have "\<not> is_ws (last r)" using nws csne by simp
    ultimately have "split_ws_from [] r = spec_tokens r"
      using "2.IH"(1) [OF True] rne by (simp add: r_def)
    moreover have "spec_tokens (cur @ c # cs) = cur # spec_tokens (c # cs)"
      using spec_tokens_run [OF cne "2.prems"(1), of "c # cs"] True by simp
    moreover have "spec_tokens (c # cs) = spec_tokens r"
      using spec_tokens_skip [of "c # cs"] True by (simp add: r_def)
    ultimately show ?thesis using True by (simp add: r_def)
  next
    case False
    with 2 show ?thesis by simp
  qed
qed

lemma split_ws_trim: "trim line \<noteq> [] \<Longrightarrow> split_ws (trim line) = spec_tokens (trim line)"
  unfolding split_ws_def using split_ws_from_tokens [of "[]" "trim line"] trim_ends [of line]
  by simp

lemma spec_tokens_unfold:
  "spec_tokens s =
     (if dropWhile is_ws s = [] then []
      else takeWhile (\<lambda>c. \<not> is_ws c) (dropWhile is_ws s) #
           spec_tokens (dropWhile (\<lambda>c. \<not> is_ws c) (dropWhile is_ws s)))"
  by (subst spec_tokens.simps) (simp only: Let_def)

lemma spec_tokens_none: "dropWhile is_ws s = [] \<Longrightarrow> spec_tokens s = []"
  by (subst spec_tokens_unfold) (rule if_P)

lemma spec_tokens_some:
  "dropWhile is_ws s \<noteq> [] \<Longrightarrow>
   spec_tokens s = takeWhile (\<lambda>c. \<not> is_ws c) (dropWhile is_ws s) #
                   spec_tokens (dropWhile (\<lambda>c. \<not> is_ws c) (dropWhile is_ws s))"
  by (subst spec_tokens_unfold) (rule if_not_P)

lemma spec_tokens_good: "t \<in> set (spec_tokens s) \<Longrightarrow> t \<noteq> [] \<and> (\<forall>c\<in>set t. \<not> is_ws c)"
proof (induction s rule: spec_tokens.induct)
  case (1 s)
  define r where "r = dropWhile is_ws s"
  show ?case
  proof (cases "r = []")
    case True
    then have "spec_tokens s = []" unfolding r_def by (rule spec_tokens_none)
    with 1(2) show ?thesis by simp
  next
    case False
    then have h: "\<not> is_ws (hd r)" unfolding r_def by (rule hd_dropWhile)
    from False have "spec_tokens s =
        takeWhile (\<lambda>c. \<not> is_ws c) r # spec_tokens (dropWhile (\<lambda>c. \<not> is_ws c) r)"
      unfolding r_def by (rule spec_tokens_some)
    with 1(2) have "t = takeWhile (\<lambda>c. \<not> is_ws c) r \<or>
        t \<in> set (spec_tokens (dropWhile (\<lambda>c. \<not> is_ws c) r))"
      by (simp only: set_simps insert_iff)
    then show ?thesis
    proof
      assume t: "t = takeWhile (\<lambda>c. \<not> is_ws c) r"
      from False h have "t \<noteq> []" unfolding t by (cases r) auto
      moreover have "\<forall>c\<in>set t. \<not> is_ws c" unfolding t by (auto dest: set_takeWhileD)
      ultimately show ?thesis by simp
    next
      assume "t \<in> set (spec_tokens (dropWhile (\<lambda>c. \<not> is_ws c) r))"
      then show ?thesis by (rule "1.IH" [OF r_def False])
    qed
  qed
qed

lemma join_sp_nonempty: "ts \<noteq> [] \<Longrightarrow> \<forall>t\<in>set ts. t \<noteq> [] \<Longrightarrow> join_sp ts \<noteq> []"
  by (induction ts rule: join_sp.induct) auto

section \<open>The publish loop and the poll tick\<close>

lemma publish_lines_step:
  "publish_lines env (line # rest) st =
     (case spec_record line of
        None \<Rightarrow> publish_lines env rest st
      | Some (t, p) \<Rightarrow>
          (case publish env (published st) t p of
             Some err \<Rightarrow>
               (Some err, st\<lparr>console := console st @ [Log_publish t p],
                              published := published st @ [(t, p)]\<rparr>)
           | None \<Rightarrow>
               publish_lines env rest
                 (st\<lparr>console := console st @ [Log_publish t p],
                      published := published st @ [(t, p)]\<rparr>)))"
proof (cases "trim line = []")
  case True
  then show ?thesis by (simp add: spec_record_def)
next
  case False
  then have eq: "split_ws (trim line) = spec_tokens (trim line)" by (rule split_ws_trim)
  show ?thesis
  proof (cases "length (spec_tokens (trim line)) < 2")
    case True
    with False eq show ?thesis by (simp add: spec_record_def)
  next
    case long: False
    then obtain a b ts where ts: "spec_tokens (trim line) = a # b # ts"
      by (cases "spec_tokens (trim line)" rule: join_sp.cases) auto
    with False eq show ?thesis
      by (simp add: spec_record_def Let_def split: option.splits)
  qed
qed

lemma publish_lines_frame:
  "lastData (snd (publish_lines env ls st)) = lastData st \<and>
   world (snd (publish_lines env ls st)) = world st \<and>
   actions (snd (publish_lines env ls st)) = actions st"
proof (induction ls arbitrary: st)
  case Nil
  show ?case by simp
next
  case (Cons line rest)
  show ?case
    by (simp only: publish_lines_step) (simp add: Cons.IH split: option.splits prod.splits)
qed

lemma publish_lines_prefix:
  "\<exists>recs more. List.map_filter spec_record ls = recs @ more \<and>
     published (snd (publish_lines env ls st)) = published st @ recs \<and>
     console (snd (publish_lines env ls st)) =
       console st @ map (\<lambda>(t, p). Log_publish t p) recs"
proof (induction ls arbitrary: st)
  case Nil
  show ?case by (simp add: map_filter_simps)
next
  case (Cons line rest)
  show ?case
  proof (cases "spec_record line")
    case None
    with Cons.IH [of st] show ?thesis
      by (simp only: publish_lines_step) (simp add: map_filter_simps)
  next
    case (Some r)
    obtain t p where r: "r = (t, p)" by (cases r)
    let ?st2 = "st\<lparr>console := console st @ [Log_publish t p],
                     published := published st @ [(t, p)]\<rparr>"
    show ?thesis
    proof (cases "publish env (published st) t p")
      case thrown: (Some err)
      have "List.map_filter spec_record (line # rest) = [(t, p)] @ List.map_filter spec_record rest"
        using Some r by (simp add: map_filter_simps)
      moreover have "publish_lines env (line # rest) st = (Some err, ?st2)"
        using Some r thrown by (simp only: publish_lines_step) simp
      ultimately show ?thesis by (intro exI [of _ "[(t, p)]"] exI) auto
    next
      case None
      from Cons.IH [of ?st2] obtain recs more where
        m: "List.map_filter spec_record rest = recs @ more" and
        p: "published (snd (publish_lines env rest ?st2)) = published ?st2 @ recs" and
        c: "console (snd (publish_lines env rest ?st2)) =
              console ?st2 @ map (\<lambda>(t, p). Log_publish t p) recs"
        by blast
      have "List.map_filter spec_record (line # rest) = ((t, p) # recs) @ more"
        using Some r m by (simp add: map_filter_simps)
      moreover have "publish_lines env (line # rest) st = publish_lines env rest ?st2"
        using Some r None by (simp only: publish_lines_step) simp
      ultimately show ?thesis using p c
        by (intro exI [of _ "(t, p) # recs"] exI [of _ more]) simp
    qed
  qed
qed

lemma publish_lines_all:
  assumes "never_throws env"
  shows "publish_lines env ls st =
    (None, st\<lparr>console := console st @ map (\<lambda>(t, p). Log_publish t p) (List.map_filter spec_record ls),
              published := published st @ List.map_filter spec_record ls\<rparr>)"
proof (induction ls arbitrary: st)
  case Nil
  show ?case by (simp add: map_filter_simps)
next
  case (Cons line rest)
  have ok: "\<And>h t p. publish env h t p = None" using assms by (simp add: never_throws_def)
  show ?case
    by (simp only: publish_lines_step) (simp add: Cons.IH ok map_filter_simps split: option.splits)
qed

lemma poll_tick_changed:
  "text \<noteq> [] \<Longrightarrow> text \<noteq> lastData st \<Longrightarrow>
   poll_tick env (Inr text) st =
     (case publish_lines env (slice_last 10 (split_lines text)) (st\<lparr>lastData := text\<rparr>) of
        (None, st2) \<Rightarrow> st2
      | (Some err, st2) \<Rightarrow> st2\<lparr>console := console st2 @ [Poll_error (message_of err)]\<rparr>)"
  by (simp add: poll_tick_def)

lemma poll_tick_lastData:
  assumes "text \<noteq> []" and "text \<noteq> lastData st"
  shows "lastData (poll_tick env (Inr text) st) = text"
proof -
  obtain r st2 where
    e: "publish_lines env (slice_last 10 (split_lines text)) (st\<lparr>lastData := text\<rparr>) = (r, st2)"
    by (cases "publish_lines env (slice_last 10 (split_lines text)) (st\<lparr>lastData := text\<rparr>)")
  have "lastData st2 = text"
    using publish_lines_frame [of env "slice_last 10 (split_lines text)" "st\<lparr>lastData := text\<rparr>"] e
    by simp
  then show ?thesis using assms e by (cases r) (simp_all add: poll_tick_changed)
qed

lemma poll_tick_same: "text = [] \<or> text = lastData st \<Longrightarrow> poll_tick env (Inr text) st = st"
  by (auto simp: poll_tick_def)

lemma poll_tick_all:
  "never_throws env \<Longrightarrow> text \<noteq> [] \<Longrightarrow> text \<noteq> lastData st \<Longrightarrow>
   poll_tick env (Inr text) st =
     st\<lparr>lastData := text,
        console := console st @ map (\<lambda>(t, p). Log_publish t p) (spec_parse text),
        published := published st @ spec_parse text\<rparr>"
  by (simp add: poll_tick_changed publish_lines_all spec_parse_def)


lemma slice_last_append: "length final = n \<Longrightarrow> slice_last n (earlier @ final) = final"
  by (simp add: slice_last_def)

lemma spec_record_good:
  assumes "spec_record line = Some (t, p)"
  shows "t \<noteq> [] \<and> (\<forall>c\<in>set t. \<not> is_ws c) \<and> p \<noteq> []"
proof -
  define ts where "ts = spec_tokens (trim line)"
  from assms have len: "\<not> length ts < 2" and t: "t = hd ts" and p: "p = join_sp (tl ts)"
    by (auto simp: spec_record_def ts_def Let_def split: if_splits)
  from len obtain a b rest where ts: "ts = a # b # rest"
    by (cases ts rule: join_sp.cases) auto
  have good: "\<And>x. x \<in> set ts \<Longrightarrow> x \<noteq> [] \<and> (\<forall>c\<in>set x. \<not> is_ws c)"
    unfolding ts_def by (rule spec_tokens_good)
  have "t \<in> set ts" using t ts by simp
  then have "t \<noteq> [] \<and> (\<forall>c\<in>set t. \<not> is_ws c)" by (rule good)
  moreover have "\<forall>x\<in>set (tl ts). x \<noteq> []" using good ts by auto
  then have "p \<noteq> []" unfolding p using ts by (intro join_sp_nonempty) auto
  ultimately show ?thesis by simp
qed

lemma map_filter_mem: "r \<in> set (List.map_filter f xs) \<longleftrightarrow> (\<exists>x\<in>set xs. f x = Some r)"
  by (auto simp: map_filter_def intro: rev_image_eqI)

lemma poll_tick_published:
  "\<exists>recs. published (poll_tick env ev st) = published st @ recs \<and>
     (\<forall>r\<in>set recs. \<exists>line. spec_record line = Some r)"
proof (cases ev)
  case (Inl err)
  then show ?thesis by (simp add: poll_tick_def)
next
  case (Inr snap)
  show ?thesis
  proof (cases "snap = [] \<or> snap = lastData st")
    case True
    then show ?thesis using Inr by (simp add: poll_tick_same)
  next
    case False
    let ?ls = "slice_last 10 (split_lines snap)"
    obtain r st2 where e: "publish_lines env ?ls (st\<lparr>lastData := snap\<rparr>) = (r, st2)"
      by (cases "publish_lines env ?ls (st\<lparr>lastData := snap\<rparr>)")
    from publish_lines_prefix [of ?ls env "st\<lparr>lastData := snap\<rparr>"] e
    obtain recs more where m: "List.map_filter spec_record ?ls = recs @ more"
      and p: "published st2 = published st @ recs" by auto
    have "published (poll_tick env ev st) = published st2"
      using False e Inr by (cases r) (simp_all add: poll_tick_changed)
    then have q: "published (poll_tick env ev st) = published st @ recs" using p by simp
    have "\<forall>r\<in>set recs. \<exists>line. spec_record line = Some r"
    proof
      fix r assume "r \<in> set recs"
      then have "r \<in> set (List.map_filter spec_record ?ls)" using m by simp
      then obtain line where "spec_record line = Some r" unfolding map_filter_mem by blast
      then show "\<exists>line. spec_record line = Some r" by (rule exI)
    qed
    with q show ?thesis by (intro exI [of _ recs] conjI)
  qed
qed

lemma poll_tick_emits_good:
  assumes "(t, p) \<in> set (published (poll_tick env ev st))"
  shows "(t, p) \<in> set (published st) \<or> (t \<noteq> [] \<and> (\<forall>c\<in>set t. \<not> is_ws c) \<and> p \<noteq> [])"
proof -
  from poll_tick_published [of env ev st] obtain recs where
    p: "published (poll_tick env ev st) = published st @ recs" and
    r: "\<forall>r\<in>set recs. \<exists>line. spec_record line = Some r" by blast
  from assms p have "(t, p) \<in> set (published st) \<or> (t, p) \<in> set recs" by auto
  then show ?thesis
  proof
    assume "(t, p) \<in> set recs"
    with r obtain line where "spec_record line = Some (t, p)" by blast
    then show ?thesis using spec_record_good by blast
  qed simp
qed


section \<open>Line splitting\<close>

lemma split_lines_from_plain: "LF \<notin> set s \<Longrightarrow> split_lines_from cur s = [cur @ s]"
  by (induction cur s rule: split_lines_from.induct) auto

lemma split_lines_from_LF:
  "LF \<notin> set a \<Longrightarrow>
   split_lines_from cur (a @ LF # b) = (cur @ chomp_cr a) # split_lines_from [] b"
proof (induction a arbitrary: cur)
  case Nil
  show ?case by (cases b) (simp_all add: chomp_cr_def CR_def LF_def)
next
  case (Cons x a)
  then have x: "x \<noteq> LF" and a: "LF \<notin> set a" by auto
  show ?case
  proof (cases a)
    case Nil
    show ?thesis
    proof (cases "x = CR")
      case True
      then show ?thesis using Nil by (simp add: chomp_cr_def)
    next
      case False
      then show ?thesis using Nil x Cons.IH [OF a, of "cur @ [x]"]
        by (simp add: chomp_cr_def)
    qed
  next
    case (Cons y a')
    with a have y: "y \<noteq> LF" by auto
    have "chomp_cr (x # a) = x # chomp_cr a" using Cons by (simp add: chomp_cr_def)
    then show ?thesis using Cons x y Cons.IH [OF a, of "cur @ [x]"] by simp
  qed
qed

section \<open>The inbound handler\<close>

lemma str_includes_iff: "str_includes s pat \<longleftrightarrow> (\<exists>a b. s = a @ pat @ b)"
proof (induction s)
  case Nil
  show ?case by auto
next
  case (Cons c cs)
  show ?case
  proof
    assume "str_includes (c # cs) pat"
    then consider "prefix pat (c # cs)" | "str_includes cs pat" by auto
    then show "\<exists>a b. c # cs = a @ pat @ b"
    proof cases
      case 1
      then obtain b where "c # cs = pat @ b" by (auto simp: prefix_def)
      then have "c # cs = [] @ pat @ b" by simp
      then show ?thesis by blast
    next
      case 2
      with Cons.IH obtain a b where "cs = a @ pat @ b" by blast
      then have "c # cs = (c # a) @ pat @ b" by simp
      then show ?thesis by blast
    qed
  next
    assume "\<exists>a b. c # cs = a @ pat @ b"
    then obtain a b where e: "c # cs = a @ pat @ b" by blast
    show "str_includes (c # cs) pat"
    proof (cases a)
      case Nil
      with e have "prefix pat (c # cs)" by (simp add: prefix_def)
      then show ?thesis by simp
    next
      case (Cons x a')
      with e have "cs = a' @ pat @ b" by simp
      with Cons.IH have "str_includes cs pat" by blast
      then show ?thesis by simp
    qed
  qed
qed

lemma ended_stays_ended:
  "i < length ts \<Longrightarrow> ts ! i = None \<Longrightarrow>
   length (fst (run_schedule env sched ts st)) = length ts \<and>
   fst (run_schedule env sched ts st) ! i = None"
proof (induction sched arbitrary: ts st)
  case Nil
  then show ?case by simp
next
  case (Cons j rest)
  show ?case
  proof (cases "j < length ts")
    case False
    then show ?thesis using Cons by simp
  next
    case True
    show ?thesis
    proof (cases "ts ! j")
      case None
      then show ?thesis using True Cons by simp
    next
      case (Some t)
      let ?ts = "ts[j := fst (resume env t st)]"
      have "j \<noteq> i" using Some Cons.prems by auto
      then have "i < length ?ts" "?ts ! i = None" using Cons.prems by simp_all
      from Cons.IH [OF this] show ?thesis using True Some by simp
    qed
  qed
qed


lemma latin1_LED_ON: "latin1 (bytes ''LED_ON'') = js ''LED_ON''"
  by (simp add: latin1_def bytes_def js_def)

lemma find_editor:
  "find (\<lambda>f. str_includes (url f) (js ''/editel'')) editor_frames =
     Some \<lparr>frame_ref = 1, url = js ''https://www.tinkercad.com/things/x/editel?tenant=circuits''\<rparr>"
  by code_simp

section \<open>Claims\<close>

text \<open>
  C1. A retained line whose trimmed text is empty or has fewer than two
  whitespace-separated tokens yields no record; any other line yields exactly one call
  of \<open>client.publish\<close>, with the first token as topic and the other tokens joined by
  single spaces as payload. The calls follow the order of the lines: what a run of the
  loop publishes is an initial part of the lines' records, all of them when no call
  throws, and so is what a tick publishes for the retained lines of a changed snapshot.
  The line \<open>sensor/temperature 23.5 C\<close> gives topic \<open>sensor/temperature\<close> and payload
  \<open>23.5 C\<close>.
\<close>

theorem line_to_record:
  "publish_lines env [line] st =
     (case spec_record line of
        None \<Rightarrow> (None, st)
      | Some (t, p) \<Rightarrow>
          (publish env (published st) t p,
           st\<lparr>console := console st @ [Log_publish t p],
              published := published st @ [(t, p)]\<rparr>))
   \<and> (\<exists>recs more. List.map_filter spec_record ls = recs @ more \<and>
         published (snd (publish_lines env ls st)) = published st @ recs)
   \<and> (never_throws env \<longrightarrow>
         published (snd (publish_lines env ls st)) = published st @ List.map_filter spec_record ls)
   \<and> (never_throws env \<longrightarrow> text \<noteq> [] \<longrightarrow> text \<noteq> lastData st \<longrightarrow>
         published (poll_tick env (Inr text) st) =
           published st @ List.map_filter spec_record (slice_last 10 (split_lines text)))
   \<and> spec_record (js ''sensor/temperature 23.5 C'') =
         Some (js ''sensor/temperature'', js ''23.5 C'')"
proof (intro conjI impI)
  show "publish_lines env [line] st =
     (case spec_record line of
        None \<Rightarrow> (None, st)
      | Some (t, p) \<Rightarrow>
          (publish env (published st) t p,
           st\<lparr>console := console st @ [Log_publish t p],
              published := published st @ [(t, p)]\<rparr>))"
    by (simp only: publish_lines_step) (simp split: option.splits)
  show "\<exists>recs more. List.map_filter spec_record ls = recs @ more \<and>
         published (snd (publish_lines env ls st)) = published st @ recs"
    using publish_lines_prefix [of ls env st] by blast
  show "published (snd (publish_lines env ls st)) = published st @ List.map_filter spec_record ls"
    if "never_throws env"
    using that by (simp add: publish_lines_all)
  show "published (poll_tick env (Inr text) st) =
           published st @ List.map_filter spec_record (slice_last 10 (split_lines text))"
    if "never_throws env" "text \<noteq> []" "text \<noteq> lastData st"
    using that by (simp add: poll_tick_all spec_parse_def)
  show "spec_record (js ''sensor/temperature 23.5 C'') =
         Some (js ''sensor/temperature'', js ''23.5 C'')"
    by code_simp
qed

theorem line_to_record_witness:
  "never_throws quiet_env \<and>
   published (poll_tick quiet_env
      (Inr (js ''badline'' @ [LF] @ js ''  topic1   hello world '' @ [CR, LF] @ js ''t2 x''))
      (start ())) =
     [(js ''topic1'', js ''hello world''), (js ''t2'', js ''x'')]"
proof -
  let ?text = "js ''badline'' @ [LF] @ js ''  topic1   hello world '' @ [CR, LF] @ js ''t2 x''"
  have h: "never_throws quiet_env" by (simp add: never_throws_def quiet_env_def)
  have n: "?text \<noteq> []" "?text \<noteq> lastData (start ())" by (simp_all add: start_def js_def)
  have e: "List.map_filter spec_record (slice_last 10 (split_lines ?text)) =
      [(js ''topic1'', js ''hello world''), (js ''t2'', js ''x'')]"
    by code_simp
  show ?thesis
    using line_to_record [of quiet_env "[]" "start ()" "[]" ?text] h n e
    by (simp add: start_def)
qed

text \<open>
  C2. A tick whose snapshot is empty, or equal to \<open>lastData\<close>, returns at once: the state
  after the tick is the state before it, so nothing was parsed, published or logged and
  \<open>lastData\<close> is as it was.
\<close>

theorem unchanged_snapshot_ignored:
  "text = [] \<or> text = lastData st \<Longrightarrow> poll_tick env (Inr text) st = st"
  by (rule poll_tick_same)

theorem unchanged_snapshot_ignored_witness:
  "poll_tick quiet_env (Inr []) (start ()) = start () \<and>
   poll_tick quiet_env (Inr (js ''a 1'')) (poll_tick quiet_env (Inr (js ''a 1'')) (start ())) =
     \<lparr>lastData = js ''a 1'', console = [Log_publish (js ''a'') (js ''1'')],
      published = [(js ''a'', js ''1'')], world = (), actions = []\<rparr>"
proof -
  have h: "never_throws quiet_env" by (simp add: never_throws_def quiet_env_def)
  have p: "spec_parse (js ''a 1'') = [(js ''a'', js ''1'')]" by code_simp
  have n: "js ''a 1'' \<noteq> []" "js ''a 1'' \<noteq> lastData (start ())" by (simp_all add: start_def js_def)
  have first: "poll_tick quiet_env (Inr (js ''a 1'')) (start ()) =
     \<lparr>lastData = js ''a 1'', console = [Log_publish (js ''a'') (js ''1'')],
      published = [(js ''a'', js ''1'')], world = (), actions = []\<rparr>"
    using poll_tick_all [OF h n] p by (simp add: start_def)
  show ?thesis
    using unchanged_snapshot_ignored [of "[]" "start ()" quiet_env]
      unchanged_snapshot_ignored [of "js ''a 1''" "poll_tick quiet_env (Inr (js ''a 1'')) (start ())" quiet_env]
      first
    by simp
qed

text \<open>
  C3. Where a changed snapshot splits into some earlier lines followed by ten final
  lines, the calls of \<open>client.publish\<close> of the tick are an initial part of the records
  of the ten final lines, whatever the earlier lines are and whatever the state was
  before (the first tick included); when no call throws, the whole state after the tick
  is determined by the ten final lines.
\<close>

theorem only_last_ten_lines:
  assumes "text \<noteq> []" and "text \<noteq> lastData st"
    and "split_lines text = earlier @ final" and "length final = 10"
  shows "(\<exists>recs more. List.map_filter spec_record final = recs @ more \<and>
            published (poll_tick env (Inr text) st) = published st @ recs) \<and>
         (never_throws env \<longrightarrow>
            poll_tick env (Inr text) st =
              st\<lparr>lastData := text,
                 console := console st @
                   map (\<lambda>(t, p). Log_publish t p) (List.map_filter spec_record final),
                 published := published st @ List.map_filter spec_record final\<rparr>)"
proof -
  have fin: "slice_last 10 (split_lines text) = final"
    using assms(3,4) by (simp add: slice_last_append)
  obtain r st2 where
    e: "publish_lines env final (st\<lparr>lastData := text\<rparr>) = (r, st2)"
    by (cases "publish_lines env final (st\<lparr>lastData := text\<rparr>)")
  from publish_lines_prefix [of final env "st\<lparr>lastData := text\<rparr>"] e
  obtain recs more where m: "List.map_filter spec_record final = recs @ more"
    and p: "published st2 = published st @ recs" by auto
  have "published (poll_tick env (Inr text) st) = published st2"
    using assms(1,2) e fin by (cases r) (simp_all add: poll_tick_changed)
  with m p have a: "\<exists>recs more. List.map_filter spec_record final = recs @ more \<and>
            published (poll_tick env (Inr text) st) = published st @ recs" by auto
  have b: "poll_tick env (Inr text) st =
              st\<lparr>lastData := text,
                 console := console st @
                   map (\<lambda>(t, p). Log_publish t p) (List.map_filter spec_record final),
                 published := published st @ List.map_filter spec_record final\<rparr>"
    if "never_throws env"
    using poll_tick_all [OF that assms(1,2)] fin by (simp add: spec_parse_def)
  from a b show ?thesis by blast
qed

theorem only_last_ten_lines_witness:
  "never_throws quiet_env \<and>
   published (poll_tick quiet_env (Inr twelve_lines) (start ())) =
     [(js ''c'', js ''3''), (js ''d'', js ''4''), (js ''e'', js ''5''), (js ''f'', js ''6''),
      (js ''g'', js ''7''), (js ''h'', js ''8''), (js ''i'', js ''9''), (js ''j'', js ''10''),
      (js ''k'', js ''11''), (js ''l'', js ''12'')]"
proof -
  let ?final = "[js ''c 3'', js ''d 4'', js ''e 5'', js ''f 6'', js ''g 7'', js ''h 8'',
     js ''i 9'', js ''j 10'', js ''k 11'', js ''l 12'']"
  have h: "never_throws quiet_env" by (simp add: never_throws_def quiet_env_def)
  have n: "twelve_lines \<noteq> []" "twelve_lines \<noteq> lastData (start ())"
    by (simp_all add: start_def js_def twelve_lines_def)
  have s: "split_lines twelve_lines = [js ''a 1'', js ''b 2''] @ ?final" by code_simp
  have l: "length ?final = 10" by simp
  have e: "List.map_filter spec_record ?final =
     [(js ''c'', js ''3''), (js ''d'', js ''4''), (js ''e'', js ''5''), (js ''f'', js ''6''),
      (js ''g'', js ''7''), (js ''h'', js ''8''), (js ''i'', js ''9''), (js ''j'', js ''10''),
      (js ''k'', js ''11''), (js ''l'', js ''12'')]" by code_simp
  show ?thesis
    using only_last_ten_lines [OF n s l, of quiet_env] h e by (simp add: start_def)
qed

text \<open>
  C5 (as amended). Every record a tick publishes has a topic that is not empty and holds
  no whitespace and a payload that is not empty; the payload can have several words
  (\<open>topic1 hello world\<close> gives the payload \<open>hello world\<close>); a line with fewer than two
  tokens is passed over without a call and without console output.
\<close>

theorem record_invariant:
  "((t, p) \<in> set (published (poll_tick env ev st)) \<longrightarrow>
      (t, p) \<in> set (published st) \<or> (t \<noteq> [] \<and> (\<forall>c\<in>set t. \<not> is_ws c) \<and> p \<noteq> []))
   \<and> (length (spec_tokens (trim line)) < 2 \<longrightarrow>
        publish_lines env (line # rest) st = publish_lines env rest st)
   \<and> published (snd (publish_lines env [js ''topic1 hello world''] st)) =
        published st @ [(js ''topic1'', js ''hello world'')]"
proof (intro conjI impI)
  show "(t, p) \<in> set (published st) \<or> (t \<noteq> [] \<and> (\<forall>c\<in>set t. \<not> is_ws c) \<and> p \<noteq> [])"
    if "(t, p) \<in> set (published (poll_tick env ev st))"
    using that by (rule poll_tick_emits_good)
  show "publish_lines env (line # rest) st = publish_lines env rest st"
    if "length (spec_tokens (trim line)) < 2"
    using that by (simp only: publish_lines_step) (simp add: spec_record_def)
  have "spec_record (js ''topic1 hello world'') = Some (js ''topic1'', js ''hello world'')"
    by code_simp
  then show "published (snd (publish_lines env [js ''topic1 hello world''] st)) =
        published st @ [(js ''topic1'', js ''hello world'')]"
    by (simp only: publish_lines_step) (simp split: option.splits)
qed

theorem record_invariant_witness:
  "(js ''topic1'', js ''hello world'') \<in>
      set (published (poll_tick quiet_env (Inr (js ''topic1 hello world'')) (start ()))) \<and>
   js ''topic1'' \<noteq> [] \<and> list_all (\<lambda>c. \<not> is_ws c) (js ''topic1'') \<and> js ''hello world'' \<noteq> [] \<and>
   length (spec_tokens (trim (js ''badline''))) < 2 \<and>
   publish_lines quiet_env [js ''badline''] (start ()) = (None, start ())"
proof -
  have h: "never_throws quiet_env" by (simp add: never_throws_def quiet_env_def)
  have n: "js ''topic1 hello world'' \<noteq> []" "js ''topic1 hello world'' \<noteq> lastData (start ())"
    by (simp_all add: start_def js_def)
  have e: "spec_parse (js ''topic1 hello world'') = [(js ''topic1'', js ''hello world'')]"
    by code_simp
  have m: "(js ''topic1'', js ''hello world'') \<in>
      set (published (poll_tick quiet_env (Inr (js ''topic1 hello world'')) (start ())))"
    using poll_tick_all [OF h n] e by (simp add: start_def)
  have b: "length (spec_tokens (trim (js ''badline''))) < 2" by code_simp
  note t = record_invariant [of "js ''topic1''" "js ''hello world''" quiet_env
      "Inr (js ''topic1 hello world'')" "start ()" "js ''badline''" "[]"]
  from t m have g: "js ''topic1'' \<noteq> [] \<and> list_all (\<lambda>c. \<not> is_ws c) (js ''topic1'') \<and> js ''hello world'' \<noteq> []"
    by (simp add: start_def list_all_iff)
  from t b have d: "publish_lines quiet_env [js ''badline''] (start ()) = (None, start ())"
    by simp
  from m g b d show ?thesis by blast
qed


text \<open>
  C5 as stated says that some line yields a record with an empty payload. No tick
  publishes one.
\<close>

theorem empty_payload_counterexample:
  "\<not> (\<exists>(env :: unit env) ev st t.
        published st = [] \<and> (t, []) \<in> set (published (poll_tick env ev st)))"
proof
  assume "\<exists>(env :: unit env) ev st t.
        published st = [] \<and> (t, []) \<in> set (published (poll_tick env ev st))"
  then obtain env :: "unit env" and ev st t where
    "published st = []" and "(t, []) \<in> set (published (poll_tick env ev st))" by blast
  then show False using poll_tick_emits_good [of t "[]" env ev st] by simp
qed

text \<open>
  C6. On a tick whose snapshot has changed, \<open>lastData\<close> is the new snapshot afterwards,
  whether or not a call of \<open>client.publish\<close> threw; when one throws, the state the
  exception leaves already has the new \<open>lastData\<close>, and the \<open>catch\<close> only adds its
  console line. A following tick with the same snapshot, on any environment, changes
  nothing.
\<close>

theorem snapshot_recorded_before_processing:
  assumes "text \<noteq> []" and "text \<noteq> lastData st"
  shows "lastData (poll_tick env (Inr text) st) = text \<and>
         poll_tick env' (Inr text) (poll_tick env (Inr text) st) = poll_tick env (Inr text) st \<and>
         (\<forall>err st2. publish_lines env (slice_last 10 (split_lines text)) (st\<lparr>lastData := text\<rparr>)
              = (Some err, st2) \<longrightarrow>
            poll_tick env (Inr text) st = st2\<lparr>console := console st2 @ [Poll_error (message_of err)]\<rparr>
            \<and> lastData st2 = text)"
proof (intro conjI allI impI)
  show l: "lastData (poll_tick env (Inr text) st) = text"
    using assms by (rule poll_tick_lastData)
  show "poll_tick env' (Inr text) (poll_tick env (Inr text) st) = poll_tick env (Inr text) st"
    using l by (simp add: poll_tick_same)
next
  fix err st2
  assume e: "publish_lines env (slice_last 10 (split_lines text)) (st\<lparr>lastData := text\<rparr>)
              = (Some err, st2)"
  show "poll_tick env (Inr text) st = st2\<lparr>console := console st2 @ [Poll_error (message_of err)]\<rparr>"
    using assms e by (simp add: poll_tick_changed)
  show "lastData st2 = text"
    using publish_lines_frame [of env "slice_last 10 (split_lines text)" "st\<lparr>lastData := text\<rparr>"] e
    by simp
qed

theorem snapshot_recorded_before_processing_witness:
  "poll_tick offline_env (Inr (js ''a 1'')) (start ()) =
     \<lparr>lastData = js ''a 1'',
      console = [Log_publish (js ''a'') (js ''1''), Poll_error (js ''offline'')],
      published = [(js ''a'', js ''1'')], world = (), actions = []\<rparr> \<and>
   poll_tick quiet_env (Inr (js ''a 1'')) (poll_tick offline_env (Inr (js ''a 1'')) (start ())) =
     poll_tick offline_env (Inr (js ''a 1'')) (start ())"
proof -
  have n: "js ''a 1'' \<noteq> []" "js ''a 1'' \<noteq> lastData (start ())" by (simp_all add: start_def js_def)
  have s: "slice_last 10 (split_lines (js ''a 1'')) = [js ''a 1'']" by code_simp
  have r: "spec_record (js ''a 1'') = Some (js ''a'', js ''1'')" by code_simp
  have e: "publish_lines offline_env (slice_last 10 (split_lines (js ''a 1'')))
             ((start ())\<lparr>lastData := js ''a 1''\<rparr>) =
           (Some (Error (js ''offline'')),
            \<lparr>lastData = js ''a 1'', console = [Log_publish (js ''a'') (js ''1'')],
             published = [(js ''a'', js ''1'')], world = (), actions = []\<rparr>)"
    unfolding s by (simp only: publish_lines_step r) (simp add: offline_env_def quiet_env_def start_def)
  note t = snapshot_recorded_before_processing [OF n, of offline_env quiet_env]
  from t have a: "poll_tick quiet_env (Inr (js ''a 1'')) (poll_tick offline_env (Inr (js ''a 1'')) (start ())) =
     poll_tick offline_env (Inr (js ''a 1'')) (start ())"
    by (rule conjunct1 [OF conjunct2])
  from t e have b: "poll_tick offline_env (Inr (js ''a 1'')) (start ()) =
     \<lparr>lastData = js ''a 1'',
      console = [Log_publish (js ''a'') (js ''1''), Poll_error (js ''offline'')],
      published = [(js ''a'', js ''1'')], world = (), actions = []\<rparr>"
    by simp
  show ?thesis by (rule conjI [OF b a])
qed

text \<open>
  C4 (as amended). LF and CR LF are line boundaries: a piece without LF that is followed
  by LF (and does not end in CR), or by CR LF, is one line and the rest is split in the
  same way. Nothing else is a boundary: a text without LF is a single line, lone CRs
  included.
\<close>

theorem line_boundaries:
  "(LF \<notin> set a \<and> (a = [] \<or> last a \<noteq> CR) \<longrightarrow>
      split_lines (a @ [LF] @ b) = a # split_lines b) \<and>
   (LF \<notin> set a \<longrightarrow> split_lines (a @ [CR, LF] @ b) = a # split_lines b) \<and>
   (LF \<notin> set s \<longrightarrow> split_lines s = [s])"
proof (intro conjI impI)
  show "split_lines (a @ [LF] @ b) = a # split_lines b"
    if "LF \<notin> set a \<and> (a = [] \<or> last a \<noteq> CR)"
    using that split_lines_from_LF [of a "[]" b]
    by (auto simp: split_lines_def chomp_cr_def)
  show "split_lines (a @ [CR, LF] @ b) = a # split_lines b" if "LF \<notin> set a"
  proof -
    have "LF \<notin> set (a @ [CR])" using that by (simp add: CR_def LF_def)
    then have "split_lines_from [] ((a @ [CR]) @ LF # b) =
        ([] @ chomp_cr (a @ [CR])) # split_lines_from [] b"
      by (rule split_lines_from_LF)
    then show ?thesis by (simp add: split_lines_def chomp_cr_def)
  qed
  show "split_lines s = [s]" if "LF \<notin> set s"
    using that by (simp add: split_lines_def split_lines_from_plain)
qed

theorem line_boundaries_witness:
  "split_lines (js ''a 1'' @ [LF] @ js ''b 2'') = [js ''a 1'', js ''b 2''] \<and>
   split_lines (js ''a 1'' @ [CR, LF] @ js ''b 2'') = [js ''a 1'', js ''b 2''] \<and>
   split_lines (js ''b 2'') = [js ''b 2'']"
proof -
  have n: "LF \<notin> set (js ''a 1'')" "LF \<notin> set (js ''b 2'')" "last (js ''a 1'') \<noteq> CR"
    by (simp_all add: js_def LF_def CR_def)
  note t = line_boundaries [of "js ''a 1''" "js ''b 2''" "js ''b 2''"]
  from t n have c: "split_lines (js ''b 2'') = [js ''b 2'']" by blast
  from t n have "split_lines (js ''a 1'' @ [LF] @ js ''b 2'') = js ''a 1'' # split_lines (js ''b 2'')"
    by blast
  with c have a: "split_lines (js ''a 1'' @ [LF] @ js ''b 2'') = [js ''a 1'', js ''b 2'']" by simp
  from t n have "split_lines (js ''a 1'' @ [CR, LF] @ js ''b 2'') = js ''a 1'' # split_lines (js ''b 2'')"
    by blast
  with c have b: "split_lines (js ''a 1'' @ [CR, LF] @ js ''b 2'') = [js ''a 1'', js ''b 2'']" by simp
  from a b c show ?thesis by blast
qed

text \<open>
  C4 as stated makes a lone CR a line boundary. The text \<open>a 1\<close> CR \<open>b 2\<close> stays one
  line, and the tick publishes one record for it, with the CR read as whitespace
  between tokens.
\<close>

theorem lone_CR_counterexample:
  "split_lines (js ''a 1'' @ [CR] @ js ''b 2'') = [js ''a 1'' @ [CR] @ js ''b 2''] \<and>
   published (poll_tick quiet_env (Inr (js ''a 1'' @ [CR] @ js ''b 2'')) (start ())) =
     [(js ''a'', js ''1 b 2'')]"
  by code_simp

text \<open>
  C7. With no element at index 2 of \<open>process.argv\<close> the script writes the usage line and
  leaves with status 1, and that is all it does. With a URL there that is not empty it
  starts; the broker host is \<open>localhost\<close> when index 3 is absent and the port is
  \<open>1883\<close> when index 4 is absent.
\<close>

theorem startup_arguments:
  "(length argv \<le> 2 \<longrightarrow> startup argv = Exit [Usage] 1) \<and>
   (2 < length argv \<and> argv ! 2 \<noteq> [] \<longrightarrow>
      startup argv = Started
        \<lparr>URL = argv ! 2,
         BROKER = (if length argv \<le> 3 then js ''localhost'' else argv ! 3),
         PORT = (if length argv \<le> 4 then js ''1883'' else argv ! 4)\<rparr>)"
  by (auto simp: startup_def arg_def Let_def)

theorem startup_arguments_witness:
  "startup [js ''node'', js ''mqtt-bridge-v1.js''] = Exit [Usage] 1 \<and>
   startup [js ''node'', js ''mqtt-bridge-v1.js'', js ''https://www.tinkercad.com/things/x''] =
     Started \<lparr>URL = js ''https://www.tinkercad.com/things/x'', BROKER = js ''localhost'',
              PORT = js ''1883''\<rparr> \<and>
   startup [js ''node'', js ''mqtt-bridge-v1.js'', js ''https://www.tinkercad.com/things/x'',
            js ''10.0.0.2''] =
     Started \<lparr>URL = js ''https://www.tinkercad.com/things/x'', BROKER = js ''10.0.0.2'',
              PORT = js ''1883''\<rparr>"
proof -
  have n: "js ''https://www.tinkercad.com/things/x'' \<noteq> []" by (simp add: js_def)
  show ?thesis
    using startup_arguments [of "[js ''node'', js ''mqtt-bridge-v1.js'']"]
      startup_arguments [of "[js ''node'', js ''mqtt-bridge-v1.js'', js ''https://www.tinkercad.com/things/x'']"]
      startup_arguments [of "[js ''node'', js ''mqtt-bridge-v1.js'', js ''https://www.tinkercad.com/things/x'', js ''10.0.0.2'']"]
      n
    by simp
qed




text \<open>
  C8. A handler that goes on and finds no frame whose address contains \<open>/editel\<close>, or an
  empty list of text fields, or the exception of \<open>$$\<close> or of the action it awaited,
  writes one console line and ends, in whatever state it goes on, and so does one whose
  \<open>page.frames()\<close> throws; it issues no call on the page then, the actions still to come
  are left out, and a handler that has ended never goes on again. For an event handled
  alone the whole outcome follows: the state before the event, the console lines, and,
  when an action threw, the actions up to and including that one and the page as that
  action left it.
\<close>

theorem inbound_failures_dropped:
  fixes env :: "'w env" and st :: "'w bridge"
  shows
   "(\<not> (\<exists>f\<in>set fs. str_includes (url f) (js ''/editel'')) \<longrightarrow>
       resume env (msg, Frames_result fs) st =
         (None, st\<lparr>console := console st @ [Warn_no_frame]\<rparr>)) \<and>
    resume env (msg, Inputs_result (Inr [])) st =
      (None, st\<lparr>console := console st @ [Warn_no_input]\<rparr>) \<and>
    resume env (msg, Inputs_result (Inl err)) st =
      (None, st\<lparr>console := console st @ [Send_error (message_of err)]\<rparr>) \<and>
    resume env (msg, Call_result (Some err) rest) st =
      (None, st\<lparr>console := console st @ [Send_error (message_of err)]\<rparr>) \<and>
    (frames env (world st) = Inl err \<longrightarrow>
       on_message env topic message st =
         (None, st\<lparr>console := console st @
            [Log_mqtt topic (toString env message), Send_error (message_of err)]\<rparr>)) \<and>
    (i < length ts \<and> ts ! i = None \<longrightarrow> fst (run_schedule env sched ts st) ! i = None) \<and>
    (frames env (world st) = Inr fs \<and>
     \<not> (\<exists>f\<in>set fs. str_includes (url f) (js ''/editel'')) \<longrightarrow>
       on_message_alone env topic message st =
         st\<lparr>console := console st @ [Log_mqtt topic (toString env message), Warn_no_frame]\<rparr>) \<and>
    (frames env (world st) = Inr fs \<and>
     find (\<lambda>f. str_includes (url f) (js ''/editel'')) fs = Some f \<and>
     query_inputs env (world st) f = Inr [] \<longrightarrow>
       on_message_alone env topic message st =
         st\<lparr>console := console st @ [Log_mqtt topic (toString env message), Warn_no_input]\<rparr>) \<and>
    (frames env (world st) = Inl err \<longrightarrow>
       on_message_alone env topic message st =
         st\<lparr>console := console st @
            [Log_mqtt topic (toString env message), Send_error (message_of err)]\<rparr>) \<and>
    (frames env (world st) = Inr fs \<and>
     find (\<lambda>f. str_includes (url f) (js ''/editel'')) fs = Some f \<and>
     query_inputs env (world st) f = Inl err \<longrightarrow>
       on_message_alone env topic message st =
         st\<lparr>console := console st @
            [Log_mqtt topic (toString env message), Send_error (message_of err)]\<rparr>) \<and>
    (frames env (world st) = Inr fs \<and>
     find (\<lambda>f. str_includes (url f) (js ''/editel'')) fs = Some f \<and>
     query_inputs env (world st) f = Inr inputs \<and> inputs \<noteq> [] \<and>
     perform env (world st) (Click (last inputs) 3) = (Some err, w1) \<longrightarrow>
       on_message_alone env topic message st =
         st\<lparr>console := console st @
              [Log_mqtt topic (toString env message), Send_error (message_of err)],
            world := w1,
            actions := actions st @ [Click (last inputs) 3]\<rparr>) \<and>
    (frames env (world st) = Inr fs \<and>
     find (\<lambda>f. str_includes (url f) (js ''/editel'')) fs = Some f \<and>
     query_inputs env (world st) f = Inr inputs \<and> inputs \<noteq> [] \<and>
     perform env (world st) (Click (last inputs) 3) = (None, w1) \<and>
     perform env w1 (Press Backspace) = (Some err, w2) \<longrightarrow>
       on_message_alone env topic message st =
         st\<lparr>console := console st @
              [Log_mqtt topic (toString env message), Send_error (message_of err)],
            world := w2,
            actions := actions st @ [Click (last inputs) 3, Press Backspace]\<rparr>) \<and>
    (frames env (world st) = Inr fs \<and>
     find (\<lambda>f. str_includes (url f) (js ''/editel'')) fs = Some f \<and>
     query_inputs env (world st) f = Inr inputs \<and> inputs \<noteq> [] \<and>
     perform env (world st) (Click (last inputs) 3) = (None, w1) \<and>
     perform env w1 (Press Backspace) = (None, w2) \<and>
     perform env w2 (Type (last inputs) (toString env message)) = (Some err, w3) \<longrightarrow>
       on_message_alone env topic message st =
         st\<lparr>console := console st @
              [Log_mqtt topic (toString env message), Send_error (message_of err)],
            world := w3,
            actions := actions st @
              [Click (last inputs) 3, Press Backspace,
               Type (last inputs) (toString env message)]\<rparr>) \<and>
    (frames env (world st) = Inr fs \<and>
     find (\<lambda>f. str_includes (url f) (js ''/editel'')) fs = Some f \<and>
     query_inputs env (world st) f = Inr inputs \<and> inputs \<noteq> [] \<and>
     perform env (world st) (Click (last inputs) 3) = (None, w1) \<and>
     perform env w1 (Press Backspace) = (None, w2) \<and>
     perform env w2 (Type (last inputs) (toString env message)) = (None, w3) \<and>
     perform env w3 (Press Enter) = (Some err, w4) \<longrightarrow>
       on_message_alone env topic message st =
         st\<lparr>console := console st @
              [Log_mqtt topic (toString env message), Send_error (message_of err)],
            world := w4,
            actions := actions st @
              [Click (last inputs) 3, Press Backspace,
               Type (last inputs) (toString env message), Press Enter]\<rparr>)"
proof -
  have none: "find (\<lambda>f. str_includes (url f) (js ''/editel'')) fs = None"
    if "\<not> (\<exists>f\<in>set fs. str_includes (url f) (js ''/editel''))" for fs :: "frame list"
    using that by (simp add: find_None_iff)
  note defs = on_message_alone_def on_message_def caught_def injection_def Let_def
  have l: "inputs ! (length inputs - Suc 0) = last inputs" if "inputs \<noteq> []"
    using that by (simp add: last_conv_nth)
  have s1: "\<not> (\<exists>f\<in>set fs. str_includes (url f) (js ''/editel'')) \<longrightarrow>
       resume env (msg, Frames_result fs) st =
         (None, st\<lparr>console := console st @ [Warn_no_frame]\<rparr>)"
    by (simp add: none)
  have s2: "resume env (msg, Inputs_result (Inr [])) st =
      (None, st\<lparr>console := console st @ [Warn_no_input]\<rparr>)"
    by simp
  have s3: "resume env (msg, Inputs_result (Inl err)) st =
      (None, st\<lparr>console := console st @ [Send_error (message_of err)]\<rparr>)"
    by (simp add: caught_def)
  have s4: "resume env (msg, Call_result (Some err) rest) st =
      (None, st\<lparr>console := console st @ [Send_error (message_of err)]\<rparr>)"
    by (simp add: caught_def)
  have s5: "frames env (world st) = Inl err \<longrightarrow>
       on_message env topic message st =
         (None, st\<lparr>console := console st @
            [Log_mqtt topic (toString env message), Send_error (message_of err)]\<rparr>)"
    by (simp add: defs)
  have s6: "i < length ts \<and> ts ! i = None \<longrightarrow> fst (run_schedule env sched ts st) ! i = None"
    using ended_stays_ended [of i ts env sched st] by blast
  have a1: "frames env (world st) = Inr fs \<and>
     \<not> (\<exists>f\<in>set fs. str_includes (url f) (js ''/editel'')) \<longrightarrow>
       on_message_alone env topic message st =
         st\<lparr>console := console st @ [Log_mqtt topic (toString env message), Warn_no_frame]\<rparr>"
    by (simp add: defs none)
  have a2: "frames env (world st) = Inr fs \<and>
     find (\<lambda>f. str_includes (url f) (js ''/editel'')) fs = Some f \<and>
     query_inputs env (world st) f = Inr [] \<longrightarrow>
       on_message_alone env topic message st =
         st\<lparr>console := console st @ [Log_mqtt topic (toString env message), Warn_no_input]\<rparr>"
    by (simp add: defs)
  have a3: "frames env (world st) = Inl err \<longrightarrow>
       on_message_alone env topic message st =
         st\<lparr>console := console st @
            [Log_mqtt topic (toString env message), Send_error (message_of err)]\<rparr>"
    by (simp add: defs)
  have a4: "frames env (world st) = Inr fs \<and>
     find (\<lambda>f. str_includes (url f) (js ''/editel'')) fs = Some f \<and>
     query_inputs env (world st) f = Inl err \<longrightarrow>
       on_message_alone env topic message st =
         st\<lparr>console := console st @
            [Log_mqtt topic (toString env message), Send_error (message_of err)]\<rparr>"
    by (simp add: defs)
  have t1: "frames env (world st) = Inr fs \<and>
     find (\<lambda>f. str_includes (url f) (js ''/editel'')) fs = Some f \<and>
     query_inputs env (world st) f = Inr inputs \<and> inputs \<noteq> [] \<and>
     perform env (world st) (Click (last inputs) 3) = (Some err, w1) \<longrightarrow>
       on_message_alone env topic message st =
         st\<lparr>console := console st @
              [Log_mqtt topic (toString env message), Send_error (message_of err)],
            world := w1,
            actions := actions st @ [Click (last inputs) 3]\<rparr>"
    by (clarsimp simp: defs l)
  have t2: "frames env (world st) = Inr fs \<and>
     find (\<lambda>f. str_includes (url f) (js ''/editel'')) fs = Some f \<and>
     query_inputs env (world st) f = Inr inputs \<and> inputs \<noteq> [] \<and>
     perform env (world st) (Click (last inputs) 3) = (None, w1) \<and>
     perform env w1 (Press Backspace) = (Some err, w2) \<longrightarrow>
       on_message_alone env topic message st =
         st\<lparr>console := console st @
              [Log_mqtt topic (toString env message), Send_error (message_of err)],
            world := w2,
            actions := actions st @ [Click (last inputs) 3, Press Backspace]\<rparr>"
    by (clarsimp simp: defs l)
  have t3: "frames env (world st) = Inr fs \<and>
     find (\<lambda>f. str_includes (url f) (js ''/editel'')) fs = Some f \<and>
     query_inputs env (world st) f = Inr inputs \<and> inputs \<noteq> [] \<and>
     perform env (world st) (Click (last inputs) 3) = (None, w1) \<and>
     perform env w1 (Press Backspace) = (None, w2) \<and>
     perform env w2 (Type (last inputs) (toString env message)) = (Some err, w3) \<longrightarrow>
       on_message_alone env topic message st =
         st\<lparr>console := console st @
              [Log_mqtt topic (toString env message), Send_error (message_of err)],
            world := w3,
            actions := actions st @
              [Click (last inputs) 3, Press Backspace,
               Type (last inputs) (toString env message)]\<rparr>"
    by (clarsimp simp: defs l)
  have t4: "frames env (world st) = Inr fs \<and>
     find (\<lambda>f. str_includes (url f) (js ''/editel'')) fs = Some f \<and>
     query_inputs env (world st) f = Inr inputs \<and> inputs \<noteq> [] \<and>
     perform env (world st) (Click (last inputs) 3) = (None, w1) \<and>
     perform env w1 (Press Backspace) = (None, w2) \<and>
     perform env w2 (Type (last inputs) (toString env message)) = (None, w3) \<and>
     perform env w3 (Press Enter) = (Some err, w4) \<longrightarrow>
       on_message_alone env topic message st =
         st\<lparr>console := console st @
              [Log_mqtt topic (toString env message), Send_error (message_of err)],
            world := w4,
            actions := actions st @
              [Click (last inputs) 3, Press Backspace,
               Type (last inputs) (toString env message), Press Enter]\<rparr>"
    by (clarsimp simp: defs l)
  show ?thesis
    by (rule conjI [OF s1 conjI [OF s2 conjI [OF s3 conjI [OF s4 conjI [OF s5 conjI [OF s6
          conjI [OF a1 conjI [OF a2 conjI [OF a3 conjI [OF a4 conjI [OF t1 conjI [OF t2
          conjI [OF t3 t4]]]]]]]]]]]]])
qed

theorem inbound_failures_dropped_witness:
  "on_message_alone quiet_env command_topic (bytes ''LED_ON'') (start ()) =
     (start ())\<lparr>console := [Log_mqtt command_topic (js ''LED_ON''), Warn_no_frame]\<rparr> \<and>
   on_message_alone closed_monitor_env command_topic (bytes ''LED_ON'') (start old_page) =
     (start old_page)\<lparr>console := [Log_mqtt command_topic (js ''LED_ON''), Warn_no_input]\<rparr> \<and>
   on_message_alone crashed_env command_topic (bytes ''LED_ON'') (start old_page) =
     (start old_page)\<lparr>console :=
        [Log_mqtt command_topic (js ''LED_ON''), Send_error (js ''Target closed'')]\<rparr> \<and>
   on_message_alone stale_env command_topic (bytes ''LED_ON'') (start old_page) =
     (start old_page)\<lparr>console :=
        [Log_mqtt command_topic (js ''LED_ON''),
         Send_error (js ''Execution context was destroyed'')]\<rparr> \<and>
   actions (on_message_alone (throwing_env (Click 7 3)) command_topic (bytes ''LED_ON'')
             (start old_page)) = [Click 7 3] \<and>
   actions (on_message_alone (throwing_env (Press Backspace)) command_topic (bytes ''LED_ON'')
             (start old_page)) = [Click 7 3, Press Backspace] \<and>
   actions (on_message_alone (throwing_env (Type 7 (js ''LED_ON''))) command_topic
             (bytes ''LED_ON'') (start old_page)) =
     [Click 7 3, Press Backspace, Type 7 (js ''LED_ON'')] \<and>
   console (on_message_alone (throwing_env (Type 7 (js ''LED_ON''))) command_topic
             (bytes ''LED_ON'') (start old_page)) =
     [Log_mqtt command_topic (js ''LED_ON''), Send_error (js ''detached'')] \<and>
   actions (on_message_alone (throwing_env (Press Enter)) command_topic (bytes ''LED_ON'')
             (start old_page)) =
     [Click 7 3, Press Backspace, Type 7 (js ''LED_ON''), Press Enter] \<and>
   console (on_message_alone (throwing_env (Press Enter)) command_topic (bytes ''LED_ON'')
             (start old_page)) =
     [Log_mqtt command_topic (js ''LED_ON''), Send_error (js ''detached'')]"
proof -
  let ?ed = "\<lparr>frame_ref = 1, url = js ''https://www.tinkercad.com/things/x/editel?tenant=circuits''\<rparr>"
  let ?T = command_topic
  let ?M = "bytes ''LED_ON''"
  define w1 where "w1 = snd (perform_page old_page (Click 7 3))"
  define w2 where "w2 = snd (perform_page w1 (Press Backspace))"
  define w3 where "w3 = snd (perform_page w2 (Type 7 (js ''LED_ON'')))"
  note ws = w1_def w2_def w3_def
  have a: "on_message_alone quiet_env ?T ?M (start ()) =
     (start ())\<lparr>console := [Log_mqtt ?T (js ''LED_ON''), Warn_no_frame]\<rparr>"
    using inbound_failures_dropped [where env = quiet_env and st = "start ()" and fs = "[]"
        and topic = ?T and message = ?M]
    by (simp add: quiet_env_def start_def latin1_LED_ON)
  have b: "on_message_alone closed_monitor_env ?T ?M (start old_page) =
     (start old_page)\<lparr>console := [Log_mqtt ?T (js ''LED_ON''), Warn_no_input]\<rparr>"
    using inbound_failures_dropped [where env = closed_monitor_env and st = "start old_page"
        and fs = editor_frames and f = ?ed and topic = ?T and message = ?M] find_editor
    by (simp add: closed_monitor_env_def page_env_def start_def latin1_LED_ON)
  have c: "on_message_alone crashed_env ?T ?M (start old_page) =
     (start old_page)\<lparr>console :=
        [Log_mqtt ?T (js ''LED_ON''), Send_error (js ''Target closed'')]\<rparr>"
    using inbound_failures_dropped [where env = crashed_env and st = "start old_page"
        and err = "Error (js ''Target closed'')" and topic = ?T and message = ?M]
    by (simp add: crashed_env_def page_env_def start_def latin1_LED_ON)
  have d: "on_message_alone stale_env ?T ?M (start old_page) =
     (start old_page)\<lparr>console :=
        [Log_mqtt ?T (js ''LED_ON''), Send_error (js ''Execution context was destroyed'')]\<rparr>"
    using inbound_failures_dropped [where env = stale_env and st = "start old_page"
        and fs = editor_frames and f = ?ed
        and err = "Error (js ''Execution context was destroyed'')"
        and topic = ?T and message = ?M] find_editor
    by (simp add: stale_env_def page_env_def start_def latin1_LED_ON)
  have e1: "actions (on_message_alone (throwing_env (Click 7 3)) ?T ?M (start old_page)) =
      [Click 7 3]"
    using inbound_failures_dropped [where env = "throwing_env (Click 7 3)"
        and st = "start old_page" and fs = editor_frames and f = ?ed and inputs = "[3, 7]"
        and err = "Error (js ''detached'')" and ?w1.0 = old_page
        and topic = ?T and message = ?M] find_editor
    by (simp add: throwing_env_def page_env_def start_def latin1_LED_ON)
  have e2: "actions (on_message_alone (throwing_env (Press Backspace)) ?T ?M (start old_page)) =
      [Click 7 3, Press Backspace]"
    using inbound_failures_dropped [where env = "throwing_env (Press Backspace)"
        and st = "start old_page" and fs = editor_frames and f = ?ed and inputs = "[3, 7]"
        and err = "Error (js ''detached'')" and ?w1.0 = w1 and ?w2.0 = w1
        and topic = ?T and message = ?M] find_editor
    by (simp add: throwing_env_def page_env_def start_def latin1_LED_ON ws)
  have e3: "actions (on_message_alone (throwing_env (Type 7 (js ''LED_ON''))) ?T ?M (start old_page)) =
      [Click 7 3, Press Backspace, Type 7 (js ''LED_ON'')] \<and>
      console (on_message_alone (throwing_env (Type 7 (js ''LED_ON''))) ?T ?M (start old_page)) =
      [Log_mqtt ?T (js ''LED_ON''), Send_error (js ''detached'')]"
    using inbound_failures_dropped [where env = "throwing_env (Type 7 (js ''LED_ON''))"
        and st = "start old_page" and fs = editor_frames and f = ?ed and inputs = "[3, 7]"
        and err = "Error (js ''detached'')" and ?w1.0 = w1 and ?w2.0 = w2 and ?w3.0 = w2
        and topic = ?T and message = ?M] find_editor
    by (simp add: throwing_env_def page_env_def start_def latin1_LED_ON ws)
  have e4: "actions (on_message_alone (throwing_env (Press Enter)) ?T ?M (start old_page)) =
      [Click 7 3, Press Backspace, Type 7 (js ''LED_ON''), Press Enter] \<and>
      console (on_message_alone (throwing_env (Press Enter)) ?T ?M (start old_page)) =
      [Log_mqtt ?T (js ''LED_ON''), Send_error (js ''detached'')]"
    using inbound_failures_dropped [where env = "throwing_env (Press Enter)"
        and st = "start old_page" and fs = editor_frames and f = ?ed and inputs = "[3, 7]"
        and err = "Error (js ''detached'')" and ?w1.0 = w1 and ?w2.0 = w2 and ?w3.0 = w3
        and ?w4.0 = w3 and topic = ?T and message = ?M] find_editor
    by (simp add: throwing_env_def page_env_def start_def latin1_LED_ON ws)
  show ?thesis
    by (rule conjI [OF a conjI [OF b conjI [OF c conjI [OF d conjI [OF e1 conjI [OF e2
          conjI [OF conjunct1 [OF e3] conjI [OF conjunct2 [OF e3] e4]]]]]]]])
qed




end
